theory Spec2Isabelle
  imports Main
begin

section \<open>Strings, character classes and errors\<close>

text \<open>
  A Python \<open>str\<close> is a sequence of Unicode code points; a code point is a natural
  number here, and the length of a string counts code points, as \<open>len\<close> does.

  \<open>str.isdigit\<close> and the whitespace class that \<open>str.strip()\<close> removes belong to the
  Python runtime, not to this repository (their tables depend on the Unicode version of
  the interpreter). Every function below that calls them takes the class as its first
  argument, named \<open>isdigit\<close> or \<open>isspace\<close>, and the theorems hold for every such class.
\<close>

type_synonym codepoint = nat
type_synonym str = "codepoint list"

definition lit :: "string \<Rightarrow> str" where
  "lit s = map of_char s"

text \<open>
  The two classes on the code points below 256, where they do not depend on the Unicode
  version: \<open>isdigit\<close> holds for \<open>0\<close> to \<open>9\<close> and for the superscript digits U+00B2,
  U+00B3 and U+00B9; whitespace is U+0009 to U+000D, U+001C to U+0020, U+0085 and
  U+00A0. They are used to run the model on the ASCII examples of the specification.
\<close>

definition isdigit_latin1 :: "codepoint \<Rightarrow> bool" where
  "isdigit_latin1 c = ((48 \<le> c \<and> c \<le> 57) \<or> c = 178 \<or> c = 179 \<or> c = 185)"

definition isspace_latin1 :: "codepoint \<Rightarrow> bool" where
  "isspace_latin1 c = ((9 \<le> c \<and> c \<le> 13) \<or> (28 \<le> c \<and> c \<le> 32) \<or> c = 133 \<or> c = 160)"

text \<open>
  The two exceptions the code raises: \<open>ValueError\<close> with its message (the
  specification's \<open>ValidationError\<close>) and \<open>KeyError\<close> with the key that was not found
  (the specification's \<open>NotFoundError\<close>).
\<close>

datatype error = ValueError string | KeyError str

section \<open>Field, Name and Phone\<close>

text \<open>
  \<open>Field\<close> has the one attribute \<open>value\<close>; \<open>Name\<close> and \<open>Phone\<close> are subclasses
  that only add a check to the constructor. A constructor either raises (\<open>Inl\<close>) or
  yields the object (\<open>Inr\<close>).
\<close>

record Field =
  val :: str

definition Field_init :: "str \<Rightarrow> Field" where
  "Field_init v = \<lparr>val = v\<rparr>"

text \<open>\<open>str.strip()\<close>: leading and trailing whitespace removed.\<close>

definition strip :: "(codepoint \<Rightarrow> bool) \<Rightarrow> str \<Rightarrow> str" where
  "strip isspace s = rev (dropWhile isspace (rev (dropWhile isspace s)))"

text \<open>
  \<open>Name.__init__\<close>. On a string, \<open>value or ""\<close> is the string itself (the empty
  string is the only false one).
\<close>

definition Name_init :: "(codepoint \<Rightarrow> bool) \<Rightarrow> str \<Rightarrow> error + Field" where
  "Name_init isspace v =
     (let v' = strip isspace v
      in if v' = [] then Inl (ValueError ''Name cannot be empty.'')
         else Inr (Field_init v'))"

text \<open>\<open>Phone.__init__\<close>. On a string, \<open>str(value)\<close> is the string itself.\<close>

definition Phone_init :: "(codepoint \<Rightarrow> bool) \<Rightarrow> str \<Rightarrow> error + Field" where
  "Phone_init isdigit v =
     (let raw = filter isdigit v
      in if length raw \<noteq> 10 then Inl (ValueError ''Phone must contain exactly 10 digits.'')
         else Inr (Field_init raw))"

section \<open>Record\<close>

text \<open>
  A record owns its \<open>Phone\<close> objects: \<open>add_phone\<close> creates each of them and nothing
  else puts an object into the list, so no object stands in the list twice and an
  object of the list is identified by its position. A method that mutates the record
  returns the exception it raised, if any, and the record as it is when the call ends.
\<close>

record Record =
  name :: Field
  phones :: "Field list"

definition Record_init :: "(codepoint \<Rightarrow> bool) \<Rightarrow> str \<Rightarrow> error + Record" where
  "Record_init isspace nm =
     (case Name_init isspace nm of
        Inl e \<Rightarrow> Inl e
      | Inr n \<Rightarrow> Inr \<lparr>name = n, phones = []\<rparr>)"

text \<open>
  The loop of \<open>find_phone\<close>: the first phone whose value is \<open>normalized\<close>, with its
  position in the list (which object it is).
\<close>

fun find_loop :: "Field list \<Rightarrow> str \<Rightarrow> (nat \<times> Field) option" where
  "find_loop [] normalized = None"
| "find_loop (p # ps) normalized =
     (if val p = normalized then Some (0, p)
      else map_option (\<lambda>(i, q). (Suc i, q)) (find_loop ps normalized))"

definition find_phone :: "(codepoint \<Rightarrow> bool) \<Rightarrow> Record \<Rightarrow> str \<Rightarrow> Field option" where
  "find_phone isdigit r phone_value =
     map_option snd (find_loop (phones r) (filter isdigit phone_value))"

definition add_phone :: "(codepoint \<Rightarrow> bool) \<Rightarrow> Record \<Rightarrow> str \<Rightarrow> error option \<times> Record" where
  "add_phone isdigit r phone_value =
     (case Phone_init isdigit phone_value of
        Inl e \<Rightarrow> (Some e, r)
      | Inr phone \<Rightarrow>
          if \<not> list_ex (\<lambda>p. val p = val phone) (phones r)
          then (None, r\<lparr>phones := phones r @ [phone]\<rparr>)
          else (None, r))"

text \<open>
  \<open>remove_phone\<close>. \<open>Phone\<close> defines no \<open>__eq__\<close>, so \<open>self.phones.remove(target)\<close>
  removes the object \<open>target\<close> itself: the element at the position found.
\<close>

definition remove_phone :: "(codepoint \<Rightarrow> bool) \<Rightarrow> Record \<Rightarrow> str \<Rightarrow> error option \<times> Record" where
  "remove_phone isdigit r phone_value =
     (case find_loop (phones r) (filter isdigit phone_value) of
        None \<Rightarrow> (Some (KeyError phone_value), r)
      | Some (i, target) \<Rightarrow>
          (None, r\<lparr>phones := take i (phones r) @ drop (Suc i) (phones r)\<rparr>))"

text \<open>
  \<open>edit_phone\<close>. The assignment \<open>target.value = new_phone.value\<close> changes the object
  found, in its place in the list.
\<close>

definition edit_phone ::
  "(codepoint \<Rightarrow> bool) \<Rightarrow> Record \<Rightarrow> str \<Rightarrow> str \<Rightarrow> error option \<times> Record" where
  "edit_phone isdigit r old_value new_value =
     (case find_loop (phones r) (filter isdigit old_value) of
        None \<Rightarrow> (Some (KeyError old_value), r)
      | Some (i, target) \<Rightarrow>
          (case Phone_init isdigit new_value of
             Inl e \<Rightarrow> (Some e, r)
           | Inr new_phone \<Rightarrow>
               (None, r\<lparr>phones := (phones r)[i := target\<lparr>val := val new_phone\<rparr>]\<rparr>)))"

text \<open>\<open>sep.join(xs)\<close> and \<open>Record.__str__\<close>.\<close>

fun join :: "str \<Rightarrow> str list \<Rightarrow> str" where
  "join sep [] = []"
| "join sep [x] = x"
| "join sep (x # y # ys) = x @ sep @ join sep (y # ys)"

definition Record_str :: "Record \<Rightarrow> str" where
  "Record_str r =
     (let phones_str =
            (if phones r \<noteq> [] then join (lit ''; '') (map val (phones r))
             else lit ''(no phones)'')
      in lit ''Contact name: '' @ val (name r) @ lit '', phones: '' @ phones_str)"

section \<open>AddressBook\<close>

text \<open>
  \<open>UserDict\<close> keeps its entries in the dictionary \<open>self.data\<close>. A Python dictionary
  keeps its keys in insertion order: assigning to a key it holds replaces the value where
  the key stands, assigning to a new key appends the entry, and \<open>del\<close> takes the entry
  out. The dictionary is the list of its entries in that order.
\<close>

fun dict_set :: "('k \<times> 'v) list \<Rightarrow> 'k \<Rightarrow> 'v \<Rightarrow> ('k \<times> 'v) list" where
  "dict_set [] k v = [(k, v)]"
| "dict_set ((k', v') # kvs) k v =
     (if k' = k then (k', v) # kvs else (k', v') # dict_set kvs k v)"

fun dict_get :: "('k \<times> 'v) list \<Rightarrow> 'k \<Rightarrow> 'v option" where
  "dict_get [] k = None"
| "dict_get ((k', v') # kvs) k = (if k' = k then Some v' else dict_get kvs k)"

fun dict_del :: "('k \<times> 'v) list \<Rightarrow> 'k \<Rightarrow> ('k \<times> 'v) list" where
  "dict_del [] k = []"
| "dict_del ((k', v') # kvs) k = (if k' = k then kvs else (k', v') # dict_del kvs k)"

record AddressBook =
  data :: "(str \<times> Record) list"

definition AddressBook_init :: AddressBook where
  "AddressBook_init = \<lparr>data = []\<rparr>"

definition add_record :: "AddressBook \<Rightarrow> Record \<Rightarrow> AddressBook" where
  "add_record b record = b\<lparr>data := dict_set (data b) (val (name record)) record\<rparr>"

definition find_record :: "AddressBook \<Rightarrow> str \<Rightarrow> Record option" where
  "find_record b nm = dict_get (data b) nm"

text \<open>\<open>del self.data[name]\<close> raises \<open>KeyError(name)\<close> when the key is missing.\<close>

definition delete :: "AddressBook \<Rightarrow> str \<Rightarrow> error option \<times> AddressBook" where
  "delete b nm =
     (case dict_get (data b) nm of
        None \<Rightarrow> (Some (KeyError nm), b)
      | Some r \<Rightarrow> (None, b\<lparr>data := dict_del (data b) nm\<rparr>))"

text \<open>
  Iteration over the pairs of the book, as the main block of the source does it:
  \<open>book.data.items()\<close>. It reads the book and does not change it.
\<close>

definition items :: "AddressBook \<Rightarrow> (str \<times> Record) list" where
  "items b = data b"

section \<open>Books built by calls\<close>

text \<open>
  A book that is manipulated through \<open>add_record\<close> and \<open>delete\<close> only is the empty
  book after a sequence of such calls. A \<open>delete\<close> that raises leaves the book as it
  was, and the sequence goes on.
\<close>

datatype book_op = AddRecord Record | Delete str

fun apply_op :: "AddressBook \<Rightarrow> book_op \<Rightarrow> AddressBook" where
  "apply_op b (AddRecord record) = add_record b record"
| "apply_op b (Delete nm) = snd (delete b nm)"

definition run :: "book_op list \<Rightarrow> AddressBook" where
  "run ops = foldl apply_op AddressBook_init ops"

text \<open>The records that the calls of a sequence passed to \<open>add_record\<close>.\<close>

fun added :: "book_op list \<Rightarrow> Record list" where
  "added [] = []"
| "added (AddRecord record # ops) = record # added ops"
| "added (Delete nm # ops) = added ops"

text \<open>
  The insertion order of the specification, read off the calls alone. A key is inserted
  by the call that adds a record under it while the book does not hold it; it then stays
  until a \<open>delete\<close> of it, and a later \<open>add_record\<close> under it replaces the record and
  is no insertion. \<open>entered\<close> takes the calls latest first and gives the number of the
  call that inserted the key, if the book holds the key after them; \<open>latest\<close> gives the
  record the book then holds under it. \<open>inserted_before\<close> orders two keys the book holds
  by the calls that inserted them.
\<close>

fun entered :: "book_op list \<Rightarrow> str \<Rightarrow> nat option" where
  "entered [] k = None"
| "entered (AddRecord record # earlier) k =
     (if val (name record) = k
      then (case entered earlier k of None \<Rightarrow> Some (length earlier) | Some t \<Rightarrow> Some t)
      else entered earlier k)"
| "entered (Delete nm # earlier) k = (if nm = k then None else entered earlier k)"

fun latest :: "book_op list \<Rightarrow> str \<Rightarrow> Record option" where
  "latest [] k = None"
| "latest (AddRecord record # earlier) k =
     (if val (name record) = k then Some record else latest earlier k)"
| "latest (Delete nm # earlier) k = (if nm = k then None else latest earlier k)"

definition inserted_at :: "book_op list \<Rightarrow> str \<Rightarrow> nat option" where
  "inserted_at ops k = entered (rev ops) k"

definition inserted_before :: "book_op list \<Rightarrow> str \<Rightarrow> str \<Rightarrow> bool" where
  "inserted_before ops k k' =
     (inserted_at ops k \<noteq> None \<and> inserted_at ops k' \<noteq> None \<and>
      the (inserted_at ops k) < the (inserted_at ops k'))"

text \<open>
  What \<open>Name.__init__\<close> guarantees of the value it stores: it is not empty and has no
  whitespace at either end.
\<close>

definition trimmed :: "(codepoint \<Rightarrow> bool) \<Rightarrow> str \<Rightarrow> bool" where
  "trimmed isspace s = (s \<noteq> [] \<and> \<not> isspace (hd s) \<and> \<not> isspace (last s))"

section \<open>Name and Phone construction\<close>

subsection \<open>What \<open>strip\<close> returns\<close>

lemma strip_decomp:
  "\<exists>pre post. s = pre @ strip isspace s @ post \<and> list_all isspace pre \<and> list_all isspace post"
proof -
  let ?a = "takeWhile isspace s" and ?t = "dropWhile isspace s"
  let ?b = "rev (takeWhile isspace (rev ?t))"
  have "rev ?t = takeWhile isspace (rev ?t) @ dropWhile isspace (rev ?t)" by simp
  then have "?t = rev (dropWhile isspace (rev ?t)) @ ?b"
    by (metis rev_append rev_rev_ident)
  then have "s = ?a @ strip isspace s @ ?b"
    by (metis strip_def takeWhile_dropWhile_id)
  moreover have "list_all isspace ?a" by (simp add: list_all_iff) (metis set_takeWhileD)
  moreover have "list_all isspace ?b" by (simp add: list_all_iff) (metis set_takeWhileD)
  ultimately show ?thesis by blast
qed

lemma strip_Nil_iff: "strip isspace s = [] \<longleftrightarrow> list_all isspace s"
proof
  assume "list_all isspace s"
  then have "\<forall>x\<in>set s. isspace x" by (simp add: list_all_iff)
  then show "strip isspace s = []" by (auto simp: strip_def dest: set_dropWhileD)
next
  let ?t = "dropWhile isspace s"
  assume "strip isspace s = []"
  then have "dropWhile isspace (rev ?t) = []" by (simp add: strip_def)
  then have "\<forall>x\<in>set (rev ?t). isspace x" by (metis dropWhile_eq_Nil_conv)
  then have all: "\<forall>x\<in>set ?t. isspace x" by simp
  have "?t = []"
  proof (rule ccontr)
    assume t: "?t \<noteq> []"
    then have "\<not> isspace (hd ?t)" by (rule hd_dropWhile)
    moreover from t have "hd ?t \<in> set ?t" by (rule hd_in_set)
    ultimately show False using all by blast
  qed
  then have "\<forall>x\<in>set s. isspace x" by (metis dropWhile_eq_Nil_conv)
  then show "list_all isspace s" by (simp add: list_all_iff)
qed

lemma strip_ends:
  assumes "strip isspace s \<noteq> []"
  shows "\<not> isspace (hd (strip isspace s)) \<and> \<not> isspace (last (strip isspace s))"
proof -
  let ?t = "dropWhile isspace s"
  let ?u = "dropWhile isspace (rev ?t)"
  from assms have u: "?u \<noteq> []" by (simp add: strip_def)
  have t: "?t \<noteq> []"
  proof
    assume "?t = []"
    then have "?u = []" by (simp only: rev.simps dropWhile.simps)
    with u show False by blast
  qed
  have "\<not> isspace (hd ?u)" using u by (rule hd_dropWhile)
  then have l: "\<not> isspace (last (strip isspace s))" using u by (simp add: strip_def last_rev)
  have "rev ?t = takeWhile isspace (rev ?t) @ ?u" by simp
  then have "last (rev ?t) = last ?u" using u by (metis last_appendR)
  then have "last ?u = hd ?t" using t by (simp add: last_rev)
  moreover have "\<not> isspace (hd ?t)" using t by (rule hd_dropWhile)
  ultimately have "\<not> isspace (hd (strip isspace s))" using u by (simp add: strip_def hd_rev)
  with l show ?thesis by simp
qed

text \<open>
  Claim C4. A string with a character that is not whitespace makes a \<open>Name\<close> whose
  value is the string without its leading and trailing whitespace; an empty string or
  one of whitespace only raises \<open>ValueError\<close>. The stripped string is the input
  between a prefix and a suffix of whitespace, and when it is not empty it neither
  starts nor ends with whitespace.
\<close>

theorem Name_init_trimmed:
  "((\<exists>c\<in>set s. \<not> isspace c) \<longrightarrow> Name_init isspace s = Inr \<lparr>val = strip isspace s\<rparr>) \<and>
   ((\<forall>c\<in>set s. isspace c) \<longrightarrow> Name_init isspace s = Inl (ValueError ''Name cannot be empty.'')) \<and>
   (\<exists>pre post. s = pre @ strip isspace s @ post \<and> list_all isspace pre \<and> list_all isspace post) \<and>
   (strip isspace s \<noteq> [] \<longrightarrow>
      \<not> isspace (hd (strip isspace s)) \<and> \<not> isspace (last (strip isspace s)))"
proof -
  have "(\<exists>c\<in>set s. \<not> isspace c) \<longrightarrow> Name_init isspace s = Inr \<lparr>val = strip isspace s\<rparr>"
    using strip_Nil_iff [of isspace s]
    by (auto simp: Name_init_def Field_init_def Let_def list_all_iff)
  moreover have "(\<forall>c\<in>set s. isspace c) \<longrightarrow>
      Name_init isspace s = Inl (ValueError ''Name cannot be empty.'')"
    using strip_Nil_iff [of isspace s]
    by (simp add: Name_init_def Let_def list_all_iff)
  ultimately show ?thesis
    using strip_decomp [of s isspace] strip_ends [of isspace s] by blast
qed

theorem Name_init_trimmed_witness:
  "(\<exists>c\<in>set (lit ''  John Smith ''). \<not> isspace_latin1 c) \<and>
   Name_init isspace_latin1 (lit ''  John Smith '') = Inr \<lparr>val = lit ''John Smith''\<rparr> \<and>
   list_all isspace_latin1 (lit ''   '') \<and>
   Name_init isspace_latin1 (lit ''   '') = Inl (ValueError ''Name cannot be empty.'') \<and>
   Name_init isspace_latin1 [] = Inl (ValueError ''Name cannot be empty.'')"
  using Name_init_trimmed [of "lit ''  John Smith ''" isspace_latin1]
    Name_init_trimmed [of "lit ''   ''" isspace_latin1]
    Name_init_trimmed [of "[]" isspace_latin1]
  by (simp add: lit_def isspace_latin1_def strip_def)



section \<open>Record operations\<close>

subsection \<open>The search loop and the dictionary lookup\<close>

lemma find_loop_None_iff: "find_loop ps n = None \<longleftrightarrow> n \<notin> set (map val ps)"
  by (induction ps) auto

lemma find_loop_SomeD:
  "find_loop ps n = Some (i, p) \<Longrightarrow>
     ps = take i ps @ p # drop (Suc i) ps \<and> i < length ps \<and> val p = n \<and>
     n \<notin> set (map val (take i ps))"
proof (induction ps arbitrary: i)
  case Nil
  then show ?case by simp
next
  case (Cons q qs)
  show ?case
  proof (cases "val q = n")
    case True
    with Cons.prems show ?thesis by simp
  next
    case False
    with Cons.prems obtain j where j: "find_loop qs n = Some (j, p)" and i: "i = Suc j"
      by auto
    from Cons.IH [OF j] False i show ?thesis by simp
  qed
qed

lemma find_loop_Some_ex:
  "n \<in> set (map val ps) \<Longrightarrow> \<exists>i p. find_loop ps n = Some (i, p)"
  using find_loop_None_iff [of ps n] by (cases "find_loop ps n") auto

lemma dict_get_map_of: "dict_get kvs k = map_of kvs k"
  by (induction kvs) auto

lemma dict_get_None_iff: "dict_get kvs k = None \<longleftrightarrow> k \<notin> set (map fst kvs)"
  by (simp add: dict_get_map_of map_of_eq_None_iff)

subsection \<open>Editing with an invalid new number\<close>

text \<open>
  Claim C1. When the record holds a phone whose value is the digits of \<open>old\<close> and the
  digits of \<open>new\<close> are not ten, \<open>edit_phone\<close> raises \<open>ValueError\<close> and the record, its
  phone list included, is as it was before the call.
\<close>

theorem edit_phone_invalid_new_unchanged:
  assumes "filter isdigit old \<in> set (map val (phones r))"
    and "length (filter isdigit new) \<noteq> 10"
  shows "edit_phone isdigit r old new =
           (Some (ValueError ''Phone must contain exactly 10 digits.''), r)"
proof -
  from assms(1) obtain i p where "find_loop (phones r) (filter isdigit old) = Some (i, p)"
    using find_loop_Some_ex by blast
  moreover from assms(2) have "Phone_init isdigit new =
      Inl (ValueError ''Phone must contain exactly 10 digits.'')"
    by (simp add: Phone_init_def)
  ultimately show ?thesis by (simp add: edit_phone_def)
qed

theorem edit_phone_invalid_new_unchanged_witness:
  "(let r = \<lparr>name = \<lparr>val = lit ''John''\<rparr>,
             phones = [\<lparr>val = lit ''1234567890''\<rparr>, \<lparr>val = lit ''5555555555''\<rparr>]\<rparr>
    in filter isdigit_latin1 (lit ''555-555-5555'') \<in> set (map val (phones r)) \<and>
       length (filter isdigit_latin1 (lit ''555-1234'')) \<noteq> 10 \<and>
       edit_phone isdigit_latin1 r (lit ''555-555-5555'') (lit ''555-1234'') =
         (Some (ValueError ''Phone must contain exactly 10 digits.''), r))"
  using edit_phone_invalid_new_unchanged
    [of isdigit_latin1 "lit ''555-555-5555''"
      "\<lparr>name = \<lparr>val = lit ''John''\<rparr>,
        phones = [\<lparr>val = lit ''1234567890''\<rparr>, \<lparr>val = lit ''5555555555''\<rparr>]\<rparr>"
      "lit ''555-1234''"]
  by (simp add: lit_def isdigit_latin1_def)

subsection \<open>Absent targets\<close>

lemma absent_phone:
  assumes "filter isdigit raw \<notin> set (map val (phones r))"
  shows "remove_phone isdigit r raw = (Some (KeyError raw), r)"
    and "edit_phone isdigit r raw new = (Some (KeyError raw), r)"
    and "find_phone isdigit r raw = None"
proof -
  from assms have f: "find_loop (phones r) (filter isdigit raw) = None"
    by (rule find_loop_None_iff [THEN iffD2])
  show "remove_phone isdigit r raw = (Some (KeyError raw), r)"
    by (simp add: remove_phone_def f)
  show "edit_phone isdigit r raw new = (Some (KeyError raw), r)"
    by (simp add: edit_phone_def f)
  show "find_phone isdigit r raw = None"
    by (simp add: find_phone_def f)
qed

lemma absent_key:
  assumes "nm \<notin> set (map fst (data b))"
  shows "delete b nm = (Some (KeyError nm), b)" and "find_record b nm = None"
proof -
  from assms have g: "dict_get (data b) nm = None"
    by (rule dict_get_None_iff [THEN iffD2])
  show "delete b nm = (Some (KeyError nm), b)" by (simp add: delete_def g)
  show "find_record b nm = None" by (simp add: find_record_def g)
qed

text \<open>
  Claim C5. When no phone of the record has the digits of \<open>raw\<close> as its value,
  \<open>remove_phone\<close> and \<open>edit_phone\<close> raise \<open>KeyError\<close> (and leave the record as it
  was) and \<open>find_phone\<close> returns \<open>None\<close>; when the book has no key \<open>nm\<close>, \<open>delete\<close>
  raises \<open>KeyError\<close> (and leaves the book as it was) and \<open>find\<close> returns \<open>None\<close>.
\<close>

theorem absent_target_raises_lookup_returns_None:
  "(filter isdigit raw \<notin> set (map val (phones r)) \<longrightarrow>
      remove_phone isdigit r raw = (Some (KeyError raw), r) \<and>
      edit_phone isdigit r raw new = (Some (KeyError raw), r) \<and>
      find_phone isdigit r raw = None) \<and>
   (nm \<notin> set (map fst (data b)) \<longrightarrow>
      delete b nm = (Some (KeyError nm), b) \<and> find_record b nm = None)"
  by (simp add: absent_phone absent_key)

theorem absent_target_raises_lookup_returns_None_witness:
  "(let r = \<lparr>name = \<lparr>val = lit ''John''\<rparr>, phones = [\<lparr>val = lit ''1234567890''\<rparr>]\<rparr>;
        b = \<lparr>data = [(lit ''John'', r)]\<rparr>
    in filter isdigit_latin1 (lit ''555-555-5555'') \<notin> set (map val (phones r)) \<and>
       remove_phone isdigit_latin1 r (lit ''555-555-5555'') =
         (Some (KeyError (lit ''555-555-5555'')), r) \<and>
       edit_phone isdigit_latin1 r (lit ''555-555-5555'') (lit ''1112223333'') =
         (Some (KeyError (lit ''555-555-5555'')), r) \<and>
       find_phone isdigit_latin1 r (lit ''555-555-5555'') = None \<and>
       lit ''Jane'' \<notin> set (map fst (data b)) \<and>
       delete b (lit ''Jane'') = (Some (KeyError (lit ''Jane'')), b) \<and>
       find_record b (lit ''Jane'') = None)"
  using absent_target_raises_lookup_returns_None
    [where isdigit = isdigit_latin1 and raw = "lit ''555-555-5555''"
      and r = "\<lparr>name = \<lparr>val = lit ''John''\<rparr>, phones = [\<lparr>val = lit ''1234567890''\<rparr>]\<rparr>"
      and new = "lit ''1112223333''" and nm = "lit ''Jane''"
      and b = "\<lparr>data = [(lit ''John'',
          \<lparr>name = \<lparr>val = lit ''John''\<rparr>, phones = [\<lparr>val = lit ''1234567890''\<rparr>]\<rparr>)]\<rparr>"]
  by (simp add: lit_def isdigit_latin1_def)

subsection \<open>Removing a phone\<close>

text \<open>
  Claim C7. When a phone of the record has the digits of \<open>raw\<close> as its value,
  \<open>remove_phone\<close> returns normally and takes out the first such phone: the list was
  \<open>pre @ p # post\<close> with no match in \<open>pre\<close>, and it becomes \<open>pre @ post\<close>. The name and
  the other phones are unchanged, and they keep their order.
\<close>

theorem remove_phone_first_match:
  assumes "filter isdigit raw \<in> set (map val (phones r))"
  shows "\<exists>pre p post.
           phones r = pre @ p # post \<and>
           val p = filter isdigit raw \<and>
           filter isdigit raw \<notin> set (map val pre) \<and>
           remove_phone isdigit r raw = (None, r\<lparr>phones := pre @ post\<rparr>)"
proof -
  from assms obtain i p where f: "find_loop (phones r) (filter isdigit raw) = Some (i, p)"
    using find_loop_Some_ex by blast
  let ?pre = "take i (phones r)" and ?post = "drop (Suc i) (phones r)"
  from find_loop_SomeD [OF f]
  have "phones r = ?pre @ p # ?post" and "val p = filter isdigit raw"
    and "filter isdigit raw \<notin> set (map val ?pre)"
    by simp_all
  moreover from f have "remove_phone isdigit r raw = (None, r\<lparr>phones := ?pre @ ?post\<rparr>)"
    by (simp add: remove_phone_def)
  ultimately show ?thesis by blast
qed

theorem remove_phone_first_match_witness:
  "(let r = \<lparr>name = \<lparr>val = lit ''John''\<rparr>,
             phones = [\<lparr>val = lit ''1234567890''\<rparr>, \<lparr>val = lit ''5555555555''\<rparr>,
                       \<lparr>val = lit ''9876543210''\<rparr>]\<rparr>
    in filter isdigit_latin1 (lit ''(555) 555-5555'') \<in> set (map val (phones r)) \<and>
       remove_phone isdigit_latin1 r (lit ''(555) 555-5555'') =
         (None, r\<lparr>phones := [\<lparr>val = lit ''1234567890''\<rparr>, \<lparr>val = lit ''9876543210''\<rparr>]\<rparr>))"
  using remove_phone_first_match
    [of isdigit_latin1 "lit ''(555) 555-5555''"
      "\<lparr>name = \<lparr>val = lit ''John''\<rparr>,
        phones = [\<lparr>val = lit ''1234567890''\<rparr>, \<lparr>val = lit ''5555555555''\<rparr>,
                  \<lparr>val = lit ''9876543210''\<rparr>]\<rparr>"]
  by (simp add: lit_def isdigit_latin1_def remove_phone_def)

subsection \<open>Rendering\<close>

lemma join_Cons: "join sep (x # xs) = x @ concat (map (\<lambda>y. sep @ y) xs)"
  by (induction xs arbitrary: x) simp_all

text \<open>
  Claim C9. The rendering of a record is a function of its name and its phone list: the
  text \<open>Contact name: \<close>, the name, the text \<open>, phones: \<close> and then either the
  placeholder \<open>(no phones)\<close>, when the list is empty, or the values of the phones in the
  order of the list with \<open>; \<close> between them. The record made for \<open>John\<close> with the
  phones \<open>123-456-7890\<close> and \<open>(555) 555-5555\<close> renders as
  \<open>Contact name: John, phones: 1234567890; 5555555555\<close>.
\<close>

theorem Record_str_format:
  "Record_str r =
     lit ''Contact name: '' @ val (name r) @ lit '', phones: '' @
       (case phones r of
          [] \<Rightarrow> lit ''(no phones)''
        | p # ps \<Rightarrow> val p @ concat (map (\<lambda>q. lit ''; '' @ val q) ps)) \<and>
   (let r0 = \<lparr>name = \<lparr>val = lit ''John''\<rparr>, phones = []\<rparr>;
        r1 = r0\<lparr>phones := [\<lparr>val = lit ''1234567890''\<rparr>]\<rparr>;
        r2 = r0\<lparr>phones := [\<lparr>val = lit ''1234567890''\<rparr>, \<lparr>val = lit ''5555555555''\<rparr>]\<rparr>
    in Record_init isspace_latin1 (lit ''John'') = Inr r0 \<and>
       add_phone isdigit_latin1 r0 (lit ''123-456-7890'') = (None, r1) \<and>
       add_phone isdigit_latin1 r1 (lit ''(555) 555-5555'') = (None, r2) \<and>
       Record_str r2 = lit ''Contact name: John, phones: 1234567890; 5555555555'' \<and>
       Record_str r0 = lit ''Contact name: John, phones: (no phones)'')"
proof -
  have "Record_str r =
     lit ''Contact name: '' @ val (name r) @ lit '', phones: '' @
       (case phones r of
          [] \<Rightarrow> lit ''(no phones)''
        | p # ps \<Rightarrow> val p @ concat (map (\<lambda>q. lit ''; '' @ val q) ps))"
    by (cases "phones r") (simp_all add: Record_str_def join_Cons comp_def)
  moreover have "Record_init isspace_latin1 (lit ''John'') =
      Inr \<lparr>name = \<lparr>val = lit ''John''\<rparr>, phones = []\<rparr>"
    by (simp add: Record_init_def Name_init_def strip_def Field_init_def lit_def
        isspace_latin1_def)
  moreover have "add_phone isdigit_latin1 \<lparr>name = \<lparr>val = lit ''John''\<rparr>, phones = []\<rparr>
      (lit ''123-456-7890'') =
      (None, \<lparr>name = \<lparr>val = lit ''John''\<rparr>, phones = [\<lparr>val = lit ''1234567890''\<rparr>]\<rparr>)"
    by (simp add: add_phone_def Phone_init_def Field_init_def lit_def isdigit_latin1_def)
  moreover have "add_phone isdigit_latin1
      \<lparr>name = \<lparr>val = lit ''John''\<rparr>, phones = [\<lparr>val = lit ''1234567890''\<rparr>]\<rparr>
      (lit ''(555) 555-5555'') =
      (None, \<lparr>name = \<lparr>val = lit ''John''\<rparr>,
              phones = [\<lparr>val = lit ''1234567890''\<rparr>, \<lparr>val = lit ''5555555555''\<rparr>]\<rparr>)"
    by (simp add: add_phone_def Phone_init_def Field_init_def lit_def isdigit_latin1_def)
  moreover have "Record_str \<lparr>name = \<lparr>val = lit ''John''\<rparr>,
        phones = [\<lparr>val = lit ''1234567890''\<rparr>, \<lparr>val = lit ''5555555555''\<rparr>]\<rparr> =
      lit ''Contact name: John, phones: 1234567890; 5555555555''"
    by (simp add: Record_str_def lit_def)
  moreover have "Record_str \<lparr>name = \<lparr>val = lit ''John''\<rparr>, phones = []\<rparr> =
      lit ''Contact name: John, phones: (no phones)''"
    by (simp add: Record_str_def lit_def)
  ultimately show ?thesis by (simp add: Let_def)
qed

subsection \<open>Duplicate values\<close>

text \<open>
  A new record holds no phone, and \<open>add_phone\<close> and \<open>remove_phone\<close> keep the values of
  the phones distinct.
\<close>

lemma Record_init_distinct:
  "Record_init isspace s = Inr r \<Longrightarrow> distinct (map val (phones r))"
  by (auto simp: Record_init_def split: sum.splits)

lemma add_phone_distinct:
  "distinct (map val (phones r)) \<Longrightarrow> distinct (map val (phones (snd (add_phone isdigit r s))))"
  by (auto simp: add_phone_def list_ex_iff split: sum.splits)

lemma distinct_take_drop_Suc: "distinct xs \<Longrightarrow> distinct (take i xs @ drop (Suc i) xs)"
proof (induction xs arbitrary: i)
  case Nil
  then show ?case by simp
next
  case (Cons x xs)
  show ?case
  proof (cases i)
    case 0
    with Cons.prems show ?thesis by simp
  next
    case (Suc j)
    from Cons.prems have "x \<notin> set (take j xs)" and "x \<notin> set (drop (Suc j) xs)"
      by (auto dest: in_set_takeD in_set_dropD)
    moreover from Cons.prems have "distinct xs" by simp
    then have "distinct (take j xs @ drop (Suc j) xs)" by (rule Cons.IH)
    ultimately show ?thesis using Suc by simp
  qed
qed

lemma remove_phone_distinct:
  assumes "distinct (map val (phones r))"
  shows "distinct (map val (phones (snd (remove_phone isdigit r s))))"
proof (cases "find_loop (phones r) (filter isdigit s)")
  case None
  with assms show ?thesis by (simp add: remove_phone_def)
next
  case (Some a)
  obtain i p where a: "a = (i, p)" by (cases a)
  from assms have "distinct (take i (map val (phones r)) @ drop (Suc i) (map val (phones r)))"
    by (rule distinct_take_drop_Suc)
  then have "distinct (map val (take i (phones r) @ drop (Suc i) (phones r)))"
    by (simp add: take_map drop_map)
  with Some a show ?thesis by (simp add: remove_phone_def)
qed

text \<open>
  Claim C2 says that no two phones of a record have the same value after any operation.
  \<open>edit_phone\<close> does not check the new value against the list as \<open>add_phone\<close> does:
  on the record of \<open>John\<close> with the phones \<open>1234567890\<close> and \<open>5555555555\<close>, whose
  values are distinct, editing the first into \<open>5555555555\<close> returns normally and leaves
  two phones with the value \<open>5555555555\<close>.
\<close>

theorem edit_phone_stores_duplicate:
  "(let r0 = \<lparr>name = \<lparr>val = lit ''John''\<rparr>, phones = []\<rparr>;
        r1 = r0\<lparr>phones := [\<lparr>val = lit ''1234567890''\<rparr>]\<rparr>;
        r2 = r0\<lparr>phones := [\<lparr>val = lit ''1234567890''\<rparr>, \<lparr>val = lit ''5555555555''\<rparr>]\<rparr>;
        r3 = r0\<lparr>phones := [\<lparr>val = lit ''5555555555''\<rparr>, \<lparr>val = lit ''5555555555''\<rparr>]\<rparr>
    in Record_init isspace_latin1 (lit ''John'') = Inr r0 \<and>
       add_phone isdigit_latin1 r0 (lit ''1234567890'') = (None, r1) \<and>
       add_phone isdigit_latin1 r1 (lit ''5555555555'') = (None, r2) \<and>
       distinct (map val (phones r2)) \<and>
       edit_phone isdigit_latin1 r2 (lit ''1234567890'') (lit ''5555555555'') = (None, r3) \<and>
       \<not> distinct (map val (phones r3)))"
  by (simp add: Let_def Record_init_def Name_init_def strip_def Field_init_def lit_def
      isspace_latin1_def add_phone_def edit_phone_def Phone_init_def isdigit_latin1_def)

text \<open>
  Two calls of \<open>add_phone\<close> with strings of the same ten digits both return normally, the
  second changes nothing, and the number of phones with that value is afterwards what it
  was before, or one if there was none. On a record whose values are distinct that is
  exactly one.
\<close>

lemma add_phone_twice:
  assumes same: "filter isdigit a = filter isdigit b"
    and ten: "length (filter isdigit a) = 10"
  shows "\<exists>r1. add_phone isdigit r a = (None, r1) \<and> add_phone isdigit r1 b = (None, r1) \<and>
           length (filter (\<lambda>p. val p = filter isdigit a) (phones r1)) =
             max 1 (length (filter (\<lambda>p. val p = filter isdigit a) (phones r)))"
proof -
  let ?v = "filter isdigit a"
  have pa: "Phone_init isdigit a = Inr \<lparr>val = ?v\<rparr>"
    using ten by (simp add: Phone_init_def Field_init_def)
  have pb: "Phone_init isdigit b = Inr \<lparr>val = ?v\<rparr>"
    using ten same by (simp add: Phone_init_def Field_init_def)
  show ?thesis
  proof (cases "list_ex (\<lambda>p. val p = ?v) (phones r)")
    case True
    then have "filter (\<lambda>p. val p = ?v) (phones r) \<noteq> []"
      by (simp add: list_ex_iff filter_empty_conv)
    then have "1 \<le> length (filter (\<lambda>p. val p = ?v) (phones r))"
      by (simp add: Suc_le_eq)
    with True pa pb show ?thesis by (simp add: add_phone_def max_def)
  next
    case False
    then have "filter (\<lambda>p. val p = ?v) (phones r) = []"
      by (simp add: list_ex_iff filter_empty_conv)
    with False pa pb show ?thesis by (simp add: add_phone_def)
  qed
qed

lemma distinct_count_le_1: "distinct xs \<Longrightarrow> length (filter (\<lambda>x. x = v) xs) \<le> 1"
  by (induction xs) (auto simp: filter_empty_conv)

lemma add_phone_twice_distinct:
  assumes "filter isdigit a = filter isdigit b" and "length (filter isdigit a) = 10"
    and d: "distinct (map val (phones r))"
  shows "\<exists>r1. add_phone isdigit r a = (None, r1) \<and> add_phone isdigit r1 b = (None, r1) \<and>
           length (filter (\<lambda>p. val p = filter isdigit a) (phones r1)) = 1"
proof -
  let ?v = "filter isdigit a"
  have "length (filter (\<lambda>p. val p = ?v) (phones r)) =
      length (filter (\<lambda>x. x = ?v) (map val (phones r)))"
    by (simp add: filter_map comp_def)
  also have "\<dots> \<le> 1" using d by (rule distinct_count_le_1)
  finally have le: "length (filter (\<lambda>p. val p = ?v) (phones r)) \<le> 1" .
  from add_phone_twice [OF assms(1,2), of r] obtain r1 where
    r1: "add_phone isdigit r a = (None, r1)" "add_phone isdigit r1 b = (None, r1)"
      "length (filter (\<lambda>p. val p = ?v) (phones r1)) =
         max 1 (length (filter (\<lambda>p. val p = ?v) (phones r)))"
    by blast
  from r1(3) le have "length (filter (\<lambda>p. val p = ?v) (phones r1)) = 1" by simp
  with r1(1,2) show ?thesis by blast
qed

text \<open>
  Claim C6 says that two calls of \<open>add_phone\<close> with strings of the same ten digits leave
  exactly one phone with that value, on every record. On the record that the edit above
  leaves, with two phones of the value \<open>5555555555\<close>, both calls return normally and
  change nothing, so two phones with that value remain.
\<close>

theorem add_phone_twice_keeps_duplicates:
  "(let r2 = \<lparr>name = \<lparr>val = lit ''John''\<rparr>,
              phones = [\<lparr>val = lit ''1234567890''\<rparr>, \<lparr>val = lit ''5555555555''\<rparr>]\<rparr>;
        r3 = r2\<lparr>phones := [\<lparr>val = lit ''5555555555''\<rparr>, \<lparr>val = lit ''5555555555''\<rparr>]\<rparr>
    in edit_phone isdigit_latin1 r2 (lit ''1234567890'') (lit ''5555555555'') = (None, r3) \<and>
       filter isdigit_latin1 (lit ''555-555-5555'') = lit ''5555555555'' \<and>
       filter isdigit_latin1 (lit ''(555) 555 5555'') = lit ''5555555555'' \<and>
       add_phone isdigit_latin1 r3 (lit ''555-555-5555'') = (None, r3) \<and>
       add_phone isdigit_latin1 r3 (lit ''(555) 555 5555'') = (None, r3) \<and>
       length (filter (\<lambda>p. val p = lit ''5555555555'') (phones r3)) = 2)"
  by (simp add: Let_def Field_init_def lit_def add_phone_def edit_phone_def Phone_init_def
      isdigit_latin1_def)

section \<open>Books\<close>

subsection \<open>The dictionary\<close>

lemma keys_dict_set:
  "map fst (dict_set kvs k v) =
     (if k \<in> set (map fst kvs) then map fst kvs else map fst kvs @ [k])"
  by (induction kvs) (force simp: image_iff)+

lemma keys_dict_del:
  "distinct (map fst kvs) \<Longrightarrow> map fst (dict_del kvs k) = filter (\<lambda>x. x \<noteq> k) (map fst kvs)"
proof (induction kvs)
  case Nil
  then show ?case by simp
next
  case (Cons kv kvs)
  obtain k' v' where kv: "kv = (k', v')" by (cases kv)
  show ?case
  proof (cases "k' = k")
    case True
    with Cons.prems kv have "k \<notin> set (map fst kvs)" by simp
    then have "filter (\<lambda>x. x \<noteq> k) (map fst kvs) = map fst kvs"
      by (simp add: filter_id_conv) blast
    with True kv show ?thesis by simp
  next
    case False
    with Cons kv show ?thesis by simp
  qed
qed

lemma dict_get_dict_set:
  "dict_get (dict_set kvs k v) k' = (if k' = k then Some v else dict_get kvs k')"
  by (induction kvs) auto

lemma dict_get_dict_del:
  "distinct (map fst kvs) \<Longrightarrow>
     dict_get (dict_del kvs k) k' = (if k' = k then None else dict_get kvs k')"
proof (induction kvs)
  case Nil
  then show ?case by simp
next
  case (Cons kv kvs)
  obtain k0 v0 where kv: "kv = (k0, v0)" by (cases kv)
  from Cons.prems kv have "k0 \<notin> set (map fst kvs)" and d: "distinct (map fst kvs)" by simp_all
  then have n: "dict_get kvs k0 = None" by (simp add: dict_get_map_of map_of_eq_None_iff)
  show ?case using kv n Cons.IH [OF d] by auto
qed

lemma run_snoc: "run (ops @ [c]) = apply_op (run ops) c"
  by (simp add: run_def)

lemma keys_delete:
  "distinct (map fst (data b)) \<Longrightarrow>
     map fst (data (snd (delete b nm))) = filter (\<lambda>x. x \<noteq> nm) (map fst (data b))"
proof (cases "dict_get (data b) nm")
  case None
  then have "nm \<notin> set (map fst (data b))" by (simp add: dict_get_map_of map_of_eq_None_iff)
  then have "filter (\<lambda>x. x \<noteq> nm) (map fst (data b)) = map fst (data b)"
    by (simp add: filter_id_conv) blast
  with None show ?thesis by (simp add: delete_def)
next
  case (Some r)
  assume "distinct (map fst (data b))"
  with Some show ?thesis by (simp add: delete_def keys_dict_del)
qed

lemma dict_get_delete:
  "distinct (map fst (data b)) \<Longrightarrow>
     dict_get (data (snd (delete b nm))) k = (if k = nm then None else dict_get (data b) k)"
  by (cases "dict_get (data b) nm") (auto simp: delete_def dict_get_dict_del)

subsection \<open>The order of the keys\<close>

text \<open>
  After any sequence of calls the keys of the book are distinct, they are the keys that
  some call inserted and no later call deleted, and they stand in the order of the calls
  that inserted them. The proof goes along the calls, the latest last.
\<close>

lemma inserted_at_snoc_Add:
  "inserted_at (ops @ [AddRecord r]) k =
     (if val (name r) = k
      then (case inserted_at ops k of None \<Rightarrow> Some (length ops) | Some t \<Rightarrow> Some t)
      else inserted_at ops k)"
  by (simp add: inserted_at_def split: option.split)

lemma inserted_at_snoc_Delete:
  "inserted_at (ops @ [Delete nm]) k = (if nm = k then None else inserted_at ops k)"
  by (simp add: inserted_at_def)

lemma book_order_Nil:
  "distinct (map fst (data (run []))) \<and>
   (\<forall>k. (k \<in> set (map fst (data (run [])))) = (inserted_at [] k \<noteq> None)) \<and>
   (\<forall>k t. inserted_at [] k = Some t \<longrightarrow> t < length ([] :: book_op list)) \<and>
   sorted_wrt (inserted_before []) (map fst (data (run [])))"
  by (simp add: run_def AddressBook_init_def inserted_at_def)

lemma book_order_Add:
  fixes ops r
  defines "ks \<equiv> map fst (data (run ops))"
  defines "ops' \<equiv> ops @ [AddRecord r]"
  assumes d: "distinct ks"
    and m: "\<And>k. (k \<in> set ks) = (inserted_at ops k \<noteq> None)"
    and bd: "\<And>k t. inserted_at ops k = Some t \<Longrightarrow> t < length ops"
    and srt: "sorted_wrt (inserted_before ops) ks"
  shows "distinct (map fst (data (run ops'))) \<and>
   (\<forall>k. (k \<in> set (map fst (data (run ops')))) = (inserted_at ops' k \<noteq> None)) \<and>
   (\<forall>k t. inserted_at ops' k = Some t \<longrightarrow> t < length ops') \<and>
   sorted_wrt (inserted_before ops') (map fst (data (run ops')))"
proof (cases "val (name r) \<in> set ks")
  case True
  then obtain t0 where t0: "inserted_at ops (val (name r)) = Some t0" using m by auto
  have same: "inserted_at ops' k = inserted_at ops k" for k
    using t0 by (auto simp: ops'_def inserted_at_snoc_Add)
  then have sb: "inserted_before ops' = inserted_before ops"
    by (simp add: fun_eq_iff inserted_before_def)
  have ks': "map fst (data (run ops')) = ks"
    using True by (simp add: ops'_def ks_def run_snoc add_record_def keys_dict_set)
  have "t < length ops'" if "inserted_at ops' k = Some t" for k t
  proof -
    from that have "inserted_at ops k = Some t" by (simp only: same)
    then have "t < length ops" by (rule bd)
    then show ?thesis by (simp add: ops'_def)
  qed
  with d m srt show ?thesis by (simp add: ks' same sb)
next
  case False
  let ?k0 = "val (name r)"
  from False have none: "inserted_at ops ?k0 = None" using m by auto
  have new: "inserted_at ops' k = (if k = ?k0 then Some (length ops) else inserted_at ops k)" for k
    using none by (auto simp: ops'_def inserted_at_snoc_Add)
  have len: "length ops' = Suc (length ops)" by (simp add: ops'_def)
  have ks': "map fst (data (run ops')) = ks @ [?k0]"
    using False by (simp add: ops'_def ks_def run_snoc add_record_def keys_dict_set)
  have d': "distinct (ks @ [?k0])" using d False by simp
  have m': "(k \<in> set (ks @ [?k0])) = (inserted_at ops' k \<noteq> None)" for k
    using m [of k] by (simp add: new)
  have bd': "t < length ops'" if "inserted_at ops' k = Some t" for k t
  proof (cases "k = ?k0")
    case True
    with that show ?thesis by (simp add: new len)
  next
    case False
    with that have "inserted_at ops k = Some t" by (simp add: new)
    then have "t < length ops" by (rule bd)
    then show ?thesis by (simp add: len)
  qed
  have old: "sorted_wrt (inserted_before ops') ks"
  proof (rule sorted_wrt_mono_rel [OF _ srt])
    fix x y
    assume x: "x \<in> set ks" and y: "y \<in> set ks" and b: "inserted_before ops x y"
    from x y False have "x \<noteq> ?k0" and "y \<noteq> ?k0" by auto
    with b show "inserted_before ops' x y" by (simp add: inserted_before_def new)
  qed
  have "inserted_before ops' k ?k0" if k: "k \<in> set ks" for k
  proof -
    from k obtain t where t: "inserted_at ops k = Some t" using m by auto
    then have "t < length ops" by (rule bd)
    moreover from k False have "k \<noteq> ?k0" by auto
    ultimately show ?thesis using t by (simp add: inserted_before_def new)
  qed
  with old have "sorted_wrt (inserted_before ops') (ks @ [?k0])"
    by (simp add: sorted_wrt_append)
  with d' m' bd' show ?thesis unfolding ks' by blast
qed

lemma book_order_Delete:
  fixes ops nm
  defines "ks \<equiv> map fst (data (run ops))"
  defines "ops' \<equiv> ops @ [Delete nm]"
  assumes d: "distinct ks"
    and m: "\<And>k. (k \<in> set ks) = (inserted_at ops k \<noteq> None)"
    and bd: "\<And>k t. inserted_at ops k = Some t \<Longrightarrow> t < length ops"
    and srt: "sorted_wrt (inserted_before ops) ks"
  shows "distinct (map fst (data (run ops'))) \<and>
   (\<forall>k. (k \<in> set (map fst (data (run ops')))) = (inserted_at ops' k \<noteq> None)) \<and>
   (\<forall>k t. inserted_at ops' k = Some t \<longrightarrow> t < length ops') \<and>
   sorted_wrt (inserted_before ops') (map fst (data (run ops')))"
proof -
  let ?ks' = "filter (\<lambda>x. x \<noteq> nm) ks"
  have new: "inserted_at ops' k = (if k = nm then None else inserted_at ops k)" for k
    by (auto simp: ops'_def inserted_at_snoc_Delete)
  have ks': "map fst (data (run ops')) = ?ks'"
    using d by (simp add: ops'_def ks_def run_snoc keys_delete)
  have d': "distinct ?ks'" using d by simp
  have m': "(k \<in> set ?ks') = (inserted_at ops' k \<noteq> None)" for k
    using m [of k] by (simp add: new)
  have bd': "t < length ops'" if "inserted_at ops' k = Some t" for k t
  proof -
    from that have "inserted_at ops k = Some t" by (simp add: new split: if_splits)
    then have "t < length ops" by (rule bd)
    then show ?thesis by (simp add: ops'_def)
  qed
  have "sorted_wrt (inserted_before ops) ?ks'" using srt by (rule sorted_wrt_filter)
  then have "sorted_wrt (inserted_before ops') ?ks'"
  proof (rule sorted_wrt_mono_rel [rotated])
    fix x y
    assume x: "x \<in> set ?ks'" and y: "y \<in> set ?ks'" and b: "inserted_before ops x y"
    from x y have "x \<noteq> nm" and "y \<noteq> nm" by auto
    with b show "inserted_before ops' x y" by (simp add: inserted_before_def new)
  qed
  with d' m' bd' show ?thesis unfolding ks' by blast
qed

lemma book_order:
  "distinct (map fst (data (run ops))) \<and>
   (\<forall>k. (k \<in> set (map fst (data (run ops)))) = (inserted_at ops k \<noteq> None)) \<and>
   (\<forall>k t. inserted_at ops k = Some t \<longrightarrow> t < length ops) \<and>
   sorted_wrt (inserted_before ops) (map fst (data (run ops)))"
proof (induction ops rule: rev_induct)
  case Nil
  show ?case by (rule book_order_Nil)
next
  case (snoc c ops)
  then have d: "distinct (map fst (data (run ops)))"
    and m: "\<And>k. (k \<in> set (map fst (data (run ops)))) = (inserted_at ops k \<noteq> None)"
    and bd: "\<And>k t. inserted_at ops k = Some t \<Longrightarrow> t < length ops"
    and srt: "sorted_wrt (inserted_before ops) (map fst (data (run ops)))"
    by blast+
  show ?case
  proof (cases c)
    case (AddRecord r)
    show ?thesis unfolding AddRecord using d m bd srt by (rule book_order_Add)
  next
    case (Delete nm)
    show ?thesis unfolding Delete using d m bd srt by (rule book_order_Delete)
  qed
qed

lemma book_lookup: "dict_get (data (run ops)) k = latest (rev ops) k"
proof (induction ops arbitrary: k rule: rev_induct)
  case Nil
  show ?case by (simp add: run_def AddressBook_init_def)
next
  case (snoc c ops)
  have d: "distinct (map fst (data (run ops)))" using book_order [of ops] by blast
  show ?case
  proof (cases c)
    case (AddRecord r)
    then show ?thesis
      by (simp add: run_snoc add_record_def dict_get_dict_set snoc.IH)
  next
    case (Delete nm)
    then show ?thesis
      using d by (auto simp: run_snoc dict_get_delete snoc.IH)
  qed
qed

lemma dict_set_new: "k \<notin> set (map fst kvs) \<Longrightarrow> dict_set kvs k v = kvs @ [(k, v)]"
  by (induction kvs) auto

text \<open>
  Claim C8. Iterating over a book built by \<open>add_record\<close> and \<open>delete\<close> calls yields
  every key once, with the record that was last added under it, and the keys come in the
  order in which they were inserted. Adding a record under a key the book holds keeps
  every key where it stands; adding one under a new key appends the pair; \<open>delete\<close>
  takes the key out and keeps the order of the others. \<open>items\<close> is a function of the book
  and leaves it unchanged, so every traversal yields the same sequence.
\<close>

theorem items_in_insertion_order:
  "distinct (map fst (items (run ops))) \<and>
   (\<forall>k. (k \<in> set (map fst (items (run ops)))) = (inserted_at ops k \<noteq> None)) \<and>
   sorted_wrt (inserted_before ops) (map fst (items (run ops))) \<and>
   (\<forall>k. map_of (items (run ops)) k = latest (rev ops) k) \<and>
   (val (name r) \<in> set (map fst (items (run ops))) \<longrightarrow>
      map fst (items (add_record (run ops) r)) = map fst (items (run ops))) \<and>
   (val (name r) \<notin> set (map fst (items (run ops))) \<longrightarrow>
      items (add_record (run ops) r) = items (run ops) @ [(val (name r), r)]) \<and>
   map fst (items (snd (delete (run ops) nm))) =
     filter (\<lambda>k. k \<noteq> nm) (map fst (items (run ops)))"
proof -
  have d: "distinct (map fst (data (run ops)))" using book_order [of ops] by blast
  have m: "\<forall>k. (k \<in> set (map fst (data (run ops)))) = (inserted_at ops k \<noteq> None)"
    using book_order [of ops] by blast
  have srt: "sorted_wrt (inserted_before ops) (map fst (data (run ops)))"
    using book_order [of ops] by blast
  have l: "\<forall>k. map_of (data (run ops)) k = latest (rev ops) k"
    using book_lookup [of ops] by (simp add: dict_get_map_of)
  have a1: "val (name r) \<in> set (map fst (data (run ops))) \<longrightarrow>
      map fst (data (add_record (run ops) r)) = map fst (data (run ops))"
    by (simp add: add_record_def keys_dict_set)
  have a2: "val (name r) \<notin> set (map fst (data (run ops))) \<longrightarrow>
      data (add_record (run ops) r) = data (run ops) @ [(val (name r), r)]"
    by (simp add: add_record_def dict_set_new)
  have dl: "map fst (data (snd (delete (run ops) nm))) =
     filter (\<lambda>k. k \<noteq> nm) (map fst (data (run ops)))"
    using d by (rule keys_delete)
  from d m srt l a1 a2 dl show ?thesis unfolding items_def by blast
qed

theorem items_in_insertion_order_witness:
  "items (run
      [AddRecord \<lparr>name = \<lparr>val = lit ''John''\<rparr>, phones = []\<rparr>,
       AddRecord \<lparr>name = \<lparr>val = lit ''Jane''\<rparr>, phones = [\<lparr>val = lit ''9876543210''\<rparr>]\<rparr>,
       AddRecord \<lparr>name = \<lparr>val = lit ''John''\<rparr>, phones = [\<lparr>val = lit ''1112223333''\<rparr>]\<rparr>]) =
     [(lit ''John'', \<lparr>name = \<lparr>val = lit ''John''\<rparr>, phones = [\<lparr>val = lit ''1112223333''\<rparr>]\<rparr>),
      (lit ''Jane'', \<lparr>name = \<lparr>val = lit ''Jane''\<rparr>, phones = [\<lparr>val = lit ''9876543210''\<rparr>]\<rparr>)] \<and>
   items (run
      [AddRecord \<lparr>name = \<lparr>val = lit ''John''\<rparr>, phones = []\<rparr>,
       AddRecord \<lparr>name = \<lparr>val = lit ''Jane''\<rparr>, phones = [\<lparr>val = lit ''9876543210''\<rparr>]\<rparr>,
       AddRecord \<lparr>name = \<lparr>val = lit ''John''\<rparr>, phones = [\<lparr>val = lit ''1112223333''\<rparr>]\<rparr>,
       Delete (lit ''Jane''), Delete (lit ''Bob''),
       AddRecord \<lparr>name = \<lparr>val = lit ''Jane''\<rparr>, phones = [\<lparr>val = lit ''9876543210''\<rparr>]\<rparr>]) =
     [(lit ''John'', \<lparr>name = \<lparr>val = lit ''John''\<rparr>, phones = [\<lparr>val = lit ''1112223333''\<rparr>]\<rparr>),
      (lit ''Jane'', \<lparr>name = \<lparr>val = lit ''Jane''\<rparr>, phones = [\<lparr>val = lit ''9876543210''\<rparr>]\<rparr>)] \<and>
   inserted_at
      [AddRecord \<lparr>name = \<lparr>val = lit ''John''\<rparr>, phones = []\<rparr>,
       AddRecord \<lparr>name = \<lparr>val = lit ''Jane''\<rparr>, phones = [\<lparr>val = lit ''9876543210''\<rparr>]\<rparr>,
       AddRecord \<lparr>name = \<lparr>val = lit ''John''\<rparr>, phones = [\<lparr>val = lit ''1112223333''\<rparr>]\<rparr>,
       Delete (lit ''Jane''), Delete (lit ''Bob''),
       AddRecord \<lparr>name = \<lparr>val = lit ''Jane''\<rparr>, phones = [\<lparr>val = lit ''9876543210''\<rparr>]\<rparr>]
      (lit ''John'') = Some 0 \<and>
   inserted_at
      [AddRecord \<lparr>name = \<lparr>val = lit ''John''\<rparr>, phones = []\<rparr>,
       AddRecord \<lparr>name = \<lparr>val = lit ''Jane''\<rparr>, phones = [\<lparr>val = lit ''9876543210''\<rparr>]\<rparr>,
       AddRecord \<lparr>name = \<lparr>val = lit ''John''\<rparr>, phones = [\<lparr>val = lit ''1112223333''\<rparr>]\<rparr>,
       Delete (lit ''Jane''), Delete (lit ''Bob''),
       AddRecord \<lparr>name = \<lparr>val = lit ''Jane''\<rparr>, phones = [\<lparr>val = lit ''9876543210''\<rparr>]\<rparr>]
      (lit ''Jane'') = Some 5 \<and>
   inserted_before
      [AddRecord \<lparr>name = \<lparr>val = lit ''John''\<rparr>, phones = []\<rparr>,
       AddRecord \<lparr>name = \<lparr>val = lit ''Jane''\<rparr>, phones = [\<lparr>val = lit ''9876543210''\<rparr>]\<rparr>,
       AddRecord \<lparr>name = \<lparr>val = lit ''John''\<rparr>, phones = [\<lparr>val = lit ''1112223333''\<rparr>]\<rparr>,
       Delete (lit ''Jane''), Delete (lit ''Bob''),
       AddRecord \<lparr>name = \<lparr>val = lit ''Jane''\<rparr>, phones = [\<lparr>val = lit ''9876543210''\<rparr>]\<rparr>]
      (lit ''John'') (lit ''Jane'')"
  using items_in_insertion_order
    [of "[AddRecord \<lparr>name = \<lparr>val = lit ''John''\<rparr>, phones = []\<rparr>,
       AddRecord \<lparr>name = \<lparr>val = lit ''Jane''\<rparr>, phones = [\<lparr>val = lit ''9876543210''\<rparr>]\<rparr>,
       AddRecord \<lparr>name = \<lparr>val = lit ''John''\<rparr>, phones = [\<lparr>val = lit ''1112223333''\<rparr>]\<rparr>,
       Delete (lit ''Jane''), Delete (lit ''Bob''),
       AddRecord \<lparr>name = \<lparr>val = lit ''Jane''\<rparr>, phones = [\<lparr>val = lit ''9876543210''\<rparr>]\<rparr>]"
      "\<lparr>name = \<lparr>val = lit ''Jane''\<rparr>, phones = [\<lparr>val = lit ''9876543210''\<rparr>]\<rparr>" "lit ''Bob''"]
  by (simp add: items_def run_def AddressBook_init_def add_record_def delete_def lit_def
      inserted_at_def inserted_before_def)

subsection \<open>Keys and names\<close>

text \<open>
  The name of a record is what \<open>Name.__init__\<close> stored, a trimmed string, and no
  method of \<open>Record\<close> changes it: a record that is changed through its methods, before
  or after it was added to a book, keeps its name and so the key it is stored under.
\<close>

lemma added_snoc:
  "added (ops @ [c]) = added ops @ (case c of AddRecord r \<Rightarrow> [r] | Delete nm \<Rightarrow> [])"
  by (induction ops rule: added.induct) (simp_all split: book_op.split)

lemma set_dict_set: "set (dict_set kvs k v) \<subseteq> insert (k, v) (set kvs)"
  by (induction kvs) (auto split: if_splits)

lemma set_dict_del: "set (dict_del kvs k) \<subseteq> set kvs"
  by (induction kvs) (auto split: if_splits)

lemma book_entries:
  "(k, r) \<in> set (data (run ops)) \<Longrightarrow> k = val (name r) \<and> r \<in> set (added ops)"
proof (induction ops arbitrary: k r rule: rev_induct)
  case Nil
  then show ?case by (simp add: run_def AddressBook_init_def)
next
  case (snoc c ops)
  show ?case
  proof (cases c)
    case (AddRecord r')
    with snoc.prems have "(k, r) \<in> insert (val (name r'), r') (set (data (run ops)))"
      using set_dict_set [of "data (run ops)" "val (name r')" r']
      by (auto simp: run_snoc add_record_def)
    then show ?thesis using snoc.IH [of k r] AddRecord by (auto simp: added_snoc)
  next
    case (Delete nm)
    with snoc.prems have "(k, r) \<in> set (data (run ops))"
      using set_dict_del [of "data (run ops)" nm]
      by (auto simp: run_snoc delete_def split: option.splits)
    then show ?thesis using snoc.IH [of k r] Delete by (simp add: added_snoc)
  qed
qed

lemma Name_init_value:
  assumes "Name_init isspace s = Inr n"
  shows "val n = strip isspace s" and "trimmed isspace (val n)"
proof -
  from assms have ne: "strip isspace s \<noteq> []" and n: "n = \<lparr>val = strip isspace s\<rparr>"
    by (auto simp: Name_init_def Field_init_def Let_def split: if_splits)
  from n show "val n = strip isspace s" by simp
  from strip_ends [OF ne] ne n show "trimmed isspace (val n)" by (simp add: trimmed_def)
qed

lemma Record_init_trimmed:
  "Record_init isspace s = Inr r \<Longrightarrow> trimmed isspace (val (name r))"
  by (auto simp: Record_init_def split: sum.splits dest: Name_init_value(2))

lemma record_ops_keep_name:
  "name (snd (add_phone isdigit r a)) = name r"
  "name (snd (remove_phone isdigit r a)) = name r"
  "name (snd (edit_phone isdigit r a b)) = name r"
  by (simp_all add: add_phone_def remove_phone_def edit_phone_def
      split: sum.splits option.splits prod.splits)

text \<open>
  Claim C10. In a book built by \<open>add_record\<close> and \<open>delete\<close> calls every key is the
  value of the name of the record stored under it. When the records added were made by
  the constructor, so that their names are trimmed, and a record is made from a string
  \<open>s\<close> that starts or ends with whitespace and is then added, \<open>find\<close> with \<open>s\<close>
  returns \<open>None\<close> and \<open>find\<close> with \<open>s\<close> stripped returns the record.
\<close>

theorem keys_are_trimmed_names:
  "list_all (\<lambda>(k, r'). k = val (name r')) (items (run ops)) \<and>
   (list_all (\<lambda>r'. trimmed isspace (val (name r'))) (added ops) \<longrightarrow>
    Name_init isspace s = Inr (name r) \<longrightarrow>
    s \<noteq> [] \<and> (isspace (hd s) \<or> isspace (last s)) \<longrightarrow>
      find_record (add_record (run ops) r) s = None \<and>
      find_record (add_record (run ops) r) (strip isspace s) = Some r)"
proof -
  have inv: "list_all (\<lambda>(k, r'). k = val (name r')) (items (run ops))"
    using book_entries [of _ _ ops] by (auto simp: list_all_iff items_def)
  have "find_record (add_record (run ops) r) s = None \<and>
      find_record (add_record (run ops) r) (strip isspace s) = Some r"
    if all: "list_all (\<lambda>r'. trimmed isspace (val (name r'))) (added ops)"
      and nm: "Name_init isspace s = Inr (name r)"
      and s: "s \<noteq> []" "isspace (hd s) \<or> isspace (last s)"
  proof -
    from Name_init_value [OF nm] have v: "val (name r) = strip isspace s"
      and t: "trimmed isspace (val (name r))" .
    have "s \<noteq> k" if "k \<in> set (map fst (data (add_record (run ops) r)))" for k
    proof -
      from that have "k = val (name r) \<or> k \<in> set (map fst (data (run ops)))"
        by (auto simp: add_record_def keys_dict_set split: if_splits)
      then have "trimmed isspace k"
      proof
        assume "k = val (name r)"
        with t show ?thesis by simp
      next
        assume "k \<in> set (map fst (data (run ops)))"
        then obtain r' where "(k, r') \<in> set (data (run ops))" by auto
        then have "k = val (name r')" and "r' \<in> set (added ops)"
          using book_entries by blast+
        with all show ?thesis by (auto simp: list_all_iff)
      qed
      with s show ?thesis by (auto simp: trimmed_def)
    qed
    then have "s \<notin> set (map fst (data (add_record (run ops) r)))" by blast
    then have "find_record (add_record (run ops) r) s = None"
      by (simp add: find_record_def dict_get_map_of map_of_eq_None_iff)
    moreover have "find_record (add_record (run ops) r) (strip isspace s) = Some r"
      by (simp add: find_record_def add_record_def dict_get_dict_set v)
    ultimately show ?thesis by simp
  qed
  with inv show ?thesis by blast
qed

theorem keys_are_trimmed_names_witness:
  "list_all (\<lambda>r'. trimmed isspace_latin1 (val (name r')))
     (added [AddRecord \<lparr>name = \<lparr>val = lit ''Jane''\<rparr>, phones = [\<lparr>val = lit ''9876543210''\<rparr>]\<rparr>, Delete (lit ''Bob'')]) \<and>
   Name_init isspace_latin1 (lit ''  John '') = Inr (name \<lparr>name = \<lparr>val = lit ''John''\<rparr>, phones = [\<lparr>val = lit ''1112223333''\<rparr>]\<rparr>) \<and>
   isspace_latin1 (hd (lit ''  John '')) \<and>
   find_record (add_record (run [AddRecord \<lparr>name = \<lparr>val = lit ''Jane''\<rparr>, phones = [\<lparr>val = lit ''9876543210''\<rparr>]\<rparr>, Delete (lit ''Bob'')])
      \<lparr>name = \<lparr>val = lit ''John''\<rparr>, phones = [\<lparr>val = lit ''1112223333''\<rparr>]\<rparr>) (lit ''  John '') = None \<and>
   find_record (add_record (run [AddRecord \<lparr>name = \<lparr>val = lit ''Jane''\<rparr>, phones = [\<lparr>val = lit ''9876543210''\<rparr>]\<rparr>, Delete (lit ''Bob'')])
      \<lparr>name = \<lparr>val = lit ''John''\<rparr>, phones = [\<lparr>val = lit ''1112223333''\<rparr>]\<rparr>) (lit ''John'') = Some \<lparr>name = \<lparr>val = lit ''John''\<rparr>, phones = [\<lparr>val = lit ''1112223333''\<rparr>]\<rparr> \<and>
   items (add_record (run [AddRecord \<lparr>name = \<lparr>val = lit ''Jane''\<rparr>, phones = [\<lparr>val = lit ''9876543210''\<rparr>]\<rparr>, Delete (lit ''Bob'')])
      \<lparr>name = \<lparr>val = lit ''John''\<rparr>, phones = [\<lparr>val = lit ''1112223333''\<rparr>]\<rparr>) =
     [(lit ''Jane'', \<lparr>name = \<lparr>val = lit ''Jane''\<rparr>, phones = [\<lparr>val = lit ''9876543210''\<rparr>]\<rparr>),
      (lit ''John'', \<lparr>name = \<lparr>val = lit ''John''\<rparr>, phones = [\<lparr>val = lit ''1112223333''\<rparr>]\<rparr>)]"
  using keys_are_trimmed_names
    [of "[AddRecord \<lparr>name = \<lparr>val = lit ''Jane''\<rparr>, phones = [\<lparr>val = lit ''9876543210''\<rparr>]\<rparr>, Delete (lit ''Bob'')]"
      isspace_latin1 "lit ''  John ''"
      "\<lparr>name = \<lparr>val = lit ''John''\<rparr>, phones = [\<lparr>val = lit ''1112223333''\<rparr>]\<rparr>"]
  by (simp add: items_def run_def AddressBook_init_def add_record_def delete_def lit_def
      find_record_def trimmed_def isspace_latin1_def Name_init_def strip_def Field_init_def)

end
